theory Spec2Isabelle
  imports Main "HOL-Library.Sublist" "HOL-Library.Multiset"
begin

section \<open>JavaScript strings and arrays\<close>

text \<open>
  A JavaScript string is modelled as a \<open>string\<close>: a list of code units. The operations
  below are the ones that \<open>commands/test.ts\<close> and \<open>utils.ts\<close> call on strings and
  arrays; each follows the ECMAScript definition of the method it is named after.
  \<open>undefined\<close> is \<open>None\<close>.
\<close>

definition quote_char :: char where
  "quote_char = CHR 0x22"

definition newline_char :: char where
  "newline_char = CHR 0x0A"

definition tab_char :: char where
  "tab_char = CHR 0x09"

text \<open>JavaScript truthiness of a \<open>string | undefined\<close>: defined and not empty.\<close>

fun truthy :: "string option \<Rightarrow> bool" where
  "truthy None = False"
| "truthy (Some s) = (s \<noteq> [])"

text \<open>\<open>s.includes(sub)\<close>: \<open>sub\<close> occurs in \<open>s\<close> as a contiguous run of code units.\<close>

fun includes_str :: "string \<Rightarrow> string \<Rightarrow> bool" where
  "includes_str [] sub = (sub = [])"
| "includes_str (c # cs) sub = (prefix sub (c # cs) \<or> includes_str cs sub)"

text \<open>\<open>s.indexOf(pat)\<close>: the position of the first occurrence, or \<open>-1\<close>.\<close>

fun indexOf_from :: "int \<Rightarrow> string \<Rightarrow> string \<Rightarrow> int" where
  "indexOf_from i [] pat = (if pat = [] then i else - 1)"
| "indexOf_from i (c # cs) pat =
     (if prefix pat (c # cs) then i else indexOf_from (i + 1) cs pat)"

definition indexOf :: "string \<Rightarrow> string \<Rightarrow> int" where
  "indexOf s pat = indexOf_from 0 s pat"

text \<open>
  \<open>s.slice(0, end)\<close>: a negative \<open>end\<close> counts from the end of the string, and
  the result is clamped to the string.
\<close>

definition slice0 :: "string \<Rightarrow> int \<Rightarrow> string" where
  "slice0 s e =
     (let len = int (length s);
          to = (if e < 0 then max (len + e) 0 else min e len)
      in take (nat to) s)"

text \<open>
  \<open>s.replaceAll(pat, rep)\<close> for string arguments: the occurrences of \<open>pat\<close> are
  replaced from left to right, without overlap; the empty pattern matches between any
  two code units and at both ends.
\<close>

function replaceAll :: "string \<Rightarrow> string \<Rightarrow> string \<Rightarrow> string" where
  "replaceAll s pat rep =
     (if pat = [] then rep @ concat (map (\<lambda>c. c # rep) s)
      else if s = [] then []
      else if prefix pat s then rep @ replaceAll (drop (length pat) s) pat rep
      else hd s # replaceAll (tl s) pat rep)"
  by pat_completeness auto
termination
  by (relation "measure (\<lambda>(s, pat, rep). length s)") auto

declare replaceAll.simps [simp del]

text \<open>\<open>s.split(sep)\<close> for a separator of one code unit.\<close>

fun split :: "string \<Rightarrow> char \<Rightarrow> string list" where
  "split [] sep = [[]]"
| "split (c # cs) sep =
     (if c = sep then [] # split cs sep
      else (case split cs sep of
              [] \<Rightarrow> [[c]]
            | x # xs \<Rightarrow> (c # x) # xs))"

text \<open>\<open>xs.join(sep)\<close>.\<close>

fun join :: "string list \<Rightarrow> string \<Rightarrow> string" where
  "join [] sep = []"
| "join [x] sep = x"
| "join (x # y # ys) sep = x @ sep @ join (y # ys) sep"

text \<open>\<open>s.repeat(n)\<close>.\<close>

definition repeat :: "string \<Rightarrow> nat \<Rightarrow> string" where
  "repeat s n = concat (replicate n s)"

section \<open>The environment\<close>

text \<open>
  The environment is built by the wollok-ts library; \<open>commands/test.ts\<close> reads it
  through \<open>descendants\<close>, \<open>forEach\<close>, \<open>is\<close>, \<open>name\<close>, \<open>fullyQualifiedName\<close>
  and \<open>isOnly\<close>. A node is modelled with exactly these: a tree whose nodes carry an
  identity \<open>nid\<close> (the object reference that \<open>Array.includes\<close> compares), a kind, the
  two names and the only-flag.

  The command distinguishes three kinds of node, in the order of its \<open>match\<close>: a
  \<open>Test\<close> (which is also an \<open>Entity\<close>), any other \<open>Entity\<close>, and any other
  \<open>Node\<close> (the environment itself is one).
\<close>

datatype node_kind = TestKind | EntityKind | OtherKind

datatype node =
  Node (nid: nat) (kind: node_kind) (name: string) (fullyQualifiedName: string)
       (isOnly: bool) (children: "node list")

text \<open>
  Modelled from the spec: the library's \<open>Node.forEach\<close> and \<open>Node.descendants\<close>,
  which are not part of this repository. The spec says that nodes are reported in the
  traversal order of the environment, which matches the order of declaration in the
  source: \<open>forEach\<close> goes depth first, a node before its children and the children in
  order. The spec says that tests are discovered by traversing the environment's
  descendants and gives no order for them; the library collects them breadth first, with
  a queue: the children of the node, then the children of each node of the queue in turn.
  The two orders differ as soon as a node comes after a sibling that has children.
\<close>

fun forEach_nodes :: "node \<Rightarrow> node list" where
  "forEach_nodes (Node i k n f onl cs) =
     Node i k n f onl cs # concat (map forEach_nodes cs)"

function descendants_queue :: "node list \<Rightarrow> node list" where
  "descendants_queue [] = []"
| "descendants_queue (nxt # pending) =
     children nxt @ descendants_queue (pending @ children nxt)"
  by pat_completeness auto
termination
proof (relation "measure (\<lambda>q. sum_list (map size q))")
  show "wf (measure (\<lambda>q. sum_list (map size q)))"
    by simp
next
  fix nxt :: node and pending :: "node list"
  have "sum_list (map size (children nxt)) < size nxt"
    by (cases nxt) (simp add: size_list_conv_sum_list)
  then show "(pending @ children nxt, nxt # pending) \<in> measure (\<lambda>q. sum_list (map size q))"
    by simp
qed

definition descendants :: "node \<Rightarrow> node list" where
  "descendants n = descendants_queue [n]"

text \<open>\<open>is(Test)\<close>.\<close>

definition is_Test :: "node \<Rightarrow> bool" where
  "is_Test n = (kind n = TestKind)"

text \<open>
  \<open>targets.includes(node)\<close> on an array of nodes compares object references: the
  node is in the array when a member has its identity.
\<close>

definition includes_node :: "node list \<Rightarrow> node \<Rightarrow> bool" where
  "includes_node xs n = list_ex (\<lambda>x. nid x = nid n) xs"

text \<open>
  In a tree every node is an object of its own: the identities of the nodes that a
  traversal meets are pairwise different.
\<close>

definition distinct_nodes :: "node \<Rightarrow> bool" where
  "distinct_nodes env = distinct (map nid (forEach_nodes env))"

section \<open>Selecting the tests to run: \<open>commands/test.ts\<close>\<close>

record Options =
  file' :: "string option"
  describe :: "string option"
  test :: "string option"
  project :: string
  skipValidations :: bool

record js_error =
  message :: string
  stack :: "string option"

text \<open>
  \<open>new Error(message)\<close>: the stack that the runtime captures is not determined by
  this code, so it is a parameter.
\<close>

definition new_Error :: "(string \<Rightarrow> string option) \<Rightarrow> string \<Rightarrow> js_error" where
  "new_Error capture msg = \<lparr>message = msg, stack = capture msg\<rparr>"

definition validateParameters ::
  "(string \<Rightarrow> string option) \<Rightarrow> string option \<Rightarrow> Options \<Rightarrow> js_error + unit" where
  "validateParameters capture flt opts =
     (if truthy flt \<and> (truthy (file' opts) \<or> truthy (describe opts) \<or> truthy (test opts))
      then Inl (new_Error capture ''You should either use filter by full name or file/describe/test.'')
      else Inr ())"

definition sanitize :: "string option \<Rightarrow> string option" where
  "sanitize v = map_option (\<lambda>s. replaceAll s [quote_char] []) v"

text \<open>
  The locals of \<open>getTarget\<close>. \<open>[file, describe, test].filter(Boolean)\<close> keeps the
  truthy options; \<open>a ?? b\<close> is \<open>a\<close> unless \<open>a\<close> is \<open>undefined\<close>.
\<close>

definition fqnByOptionalParameters :: "Options \<Rightarrow> string" where
  "fqnByOptionalParameters opts =
     join (map the (filter truthy [file' opts, describe opts, test opts])) ''.''"

definition filterTest :: "string option \<Rightarrow> Options \<Rightarrow> string" where
  "filterTest flt opts =
     (case sanitize flt of
        Some f \<Rightarrow> f
      | None \<Rightarrow> fqnByOptionalParameters opts)"

definition possibleTargets :: "node \<Rightarrow> node list" where
  "possibleTargets environment = filter is_Test (descendants environment)"

definition testMatches :: "string \<Rightarrow> node \<Rightarrow> bool" where
  "testMatches f t =
     (f = [] \<or> includes_str (the (sanitize (Some (fullyQualifiedName t)))) f)"

definition getTarget :: "node \<Rightarrow> string option \<Rightarrow> Options \<Rightarrow> node list" where
  "getTarget environment flt opts =
     (case find isOnly (possibleTargets environment) of
        Some onlyTarget \<Rightarrow> [onlyTarget]
      | None \<Rightarrow> filter (testMatches (filterTest flt opts)) (possibleTargets environment))"

definition tabulationForNode :: "string \<Rightarrow> string" where
  "tabulationForNode fqn = repeat ''  '' (length (split fqn (CHR ''.'')) - 1)"


section \<open>Printing: \<open>utils.ts\<close>\<close>

text \<open>
  What this code does not decide is a parameter of the model: the styling functions of
  chalk, the marker \<open>WOLLOK_EXTRA_STACK_TRACE_HEADER\<close> of the library, the level of the
  logger, the stack that the runtime gives a new error, and the collaborators that load
  a project, validate an environment, build an interpreter and execute a test. An
  exception is a value: \<open>Inl\<close> of a sum, or \<open>Some\<close> where nothing is returned.
\<close>

record problem =
  level :: string
  code :: string
  sourceInfo :: "string option"

record world =
  red :: "string \<Rightarrow> string"
  green :: "string \<Rightarrow> string"
  blue :: "string \<Rightarrow> string"
  yellowBright :: "string \<Rightarrow> string"
  bold :: "string \<Rightarrow> string"
  italic :: "string \<Rightarrow> string"
  stack_trace_header :: string
  debug :: bool
  capture_stack :: "string \<Rightarrow> string option"
  buildEnvironmentForProject :: "string \<Rightarrow> js_error + node"
  validate :: "node \<Rightarrow> js_error + problem list"
  interpret' :: "node \<Rightarrow> js_error option"
  exec :: "node \<Rightarrow> js_error option"

text \<open>The glyphs of the messages, as their UTF-8 code units.\<close>

definition check_mark :: string where
  "check_mark = [CHR 0xE2, CHR 0x9C, CHR 0x93]"

definition cross_mark :: string where
  "cross_mark = [CHR 0xE2, CHR 0x9C, CHR 0x97]"

definition collision_mark :: string where
  "collision_mark = [CHR 0xF0, CHR 0x9F, CHR 0x92, CHR 0xA5]"

definition information_mark :: string where
  "information_mark = [CHR 0xE2, CHR 0x84, CHR 0xB9, CHR 0xEF, CHR 0xB8, CHR 0x8F]"

definition ENTER :: string where
  "ENTER = [newline_char]"

text \<open>\<open>s.toUpperCase()\<close> on the letters a to z.\<close>

definition toUpperCase :: "string \<Rightarrow> string" where
  "toUpperCase s =
     map (\<lambda>c. if 97 \<le> (of_char c :: nat) \<and> (of_char c :: nat) \<le> 122
              then char_of ((of_char c :: nat) - 32) else c) s"

text \<open>The decimal digits of a number, as a template literal renders it.\<close>

function show_nat :: "nat \<Rightarrow> string" where
  "show_nat n =
     (if n < 10 then [char_of (48 + n)]
      else show_nat (n div 10) @ [char_of (48 + n mod 10)])"
  by pat_completeness auto
termination
  by (relation "measure id") auto

declare show_nat.simps [simp del]

definition valueDescription :: "world \<Rightarrow> string \<Rightarrow> string" where
  "valueDescription w val = italic w (blue w val)"

definition successDescription :: "world \<Rightarrow> string \<Rightarrow> string" where
  "successDescription w description = green w (bold w check_mark @ '' '' @ description)"

text \<open>
  The locals of \<open>failureDescription\<close>. \<open>e?.stack?.f(x)\<close> is \<open>undefined\<close> when
  \<open>e\<close> or its stack is.
\<close>

definition indexOfTsStack :: "world \<Rightarrow> js_error option \<Rightarrow> int option" where
  "indexOfTsStack w e =
     Option.bind e (\<lambda>err. map_option (\<lambda>s. indexOf s (stack_trace_header w)) (stack err))"

definition fullStack :: "world \<Rightarrow> js_error option \<Rightarrow> string" where
  "fullStack w e =
     (case Option.bind e (\<lambda>err. map_option
             (\<lambda>s. slice0 s (case indexOfTsStack w e of Some i \<Rightarrow> i | None \<Rightarrow> - 1))
             (stack err)) of
        Some s \<Rightarrow> s
      | None \<Rightarrow> [])"

definition reindent :: "string \<Rightarrow> string" where
  "reindent full =
     join (split (replaceAll (replaceAll (replaceAll full [tab_char] ''  '')
                    ''     '' ''  '') ''    '' ''  '') newline_char)
          (newline_char # ''  '')"

definition failureDescription :: "world \<Rightarrow> string \<Rightarrow> js_error option \<Rightarrow> string" where
  "failureDescription w description e =
     (let stck = reindent (fullStack w e)
      in red w (bold w cross_mark @ '' '' @ description @
                (if stck \<noteq> [] then newline_char # ''  '' @ stck else [])))"

definition problemDescription :: "world \<Rightarrow> problem \<Rightarrow> string" where
  "problemDescription w p =
     (let color = (if level p = ''warning'' then yellowBright w else red w);
          header = bold w (''['' @ toUpperCase (level p) @ '']'')
      in color (header @ '': '' @ code p @ '' at '' @
                (case sourceInfo p of Some i \<Rightarrow> i | None \<Rightarrow> ''unknown'')))"

text \<open>
  What the command does to the outside is recorded as a list of events, in order: the
  calls of the logger and the console with their arguments, and the calls of the
  collaborators.
\<close>

datatype event =
    LoggerInfo "string list"
  | LoggerError "string list"
  | LoggerDebug "string list"
  | LoggerDebugError js_error
  | ConsoleLog
  | ConsoleTime string
  | ConsoleTimeEnd string
  | BuildEnvironment string
  | Validate nat
  | Interpret nat
  | Exec nat

text \<open>
  \<open>validateEnvironment\<close>: the inner block throws when the validator does, or when a
  problem is an error; the \<open>catch\<close> around it logs what was thrown and throws the
  fatal error.
\<close>

definition validateEnvironment ::
  "world \<Rightarrow> node \<Rightarrow> bool \<Rightarrow> event list \<times> (js_error + unit)" where
  "validateEnvironment w environment skip =
     (if \<not> skip then
        (case (case validate w environment of
                 Inl thrown \<Rightarrow> ([Validate (nid environment)], Inl thrown)
               | Inr problems \<Rightarrow>
                   (Validate (nid environment) #
                    map (\<lambda>p. LoggerInfo [problemDescription w p]) problems @
                    (if problems = []
                     then [LoggerInfo [successDescription w
                             ''No problems found building the environment!'']]
                     else []),
                    if problems \<noteq> [] \<and> list_ex (\<lambda>p. level p = ''error'') problems
                    then Inl (new_Error (capture_stack w)
                                ''Aborting run due to validation errors!'')
                    else Inr ())) of
           (evs, Inl error) \<Rightarrow>
             (evs @ [LoggerDebugError error],
              Inl (new_Error (capture_stack w)
                     (''Fatal error while running validations. '' @ message error)))
         | (evs, Inr u) \<Rightarrow> (evs, Inr ()))
      else ([], Inr ()))"

definition handleError :: "world \<Rightarrow> js_error \<Rightarrow> event list" where
  "handleError w error =
     [LoggerError [red w (bold w (collision_mark @ '' Uh-oh... Unexpected Error!''))],
      LoggerError [red w (message error)],
      LoggerDebug [failureDescription w (information_mark @ '' Stack trace:'') (Some error)]]"

section \<open>The test command: \<open>commands/test.ts\<close>\<close>

record run_state =
  successes :: nat
  failures :: "(node \<times> js_error) list"
  log :: "event list"

text \<open>
  The callback of \<open>environment.forEach\<close>: the first arm of the \<open>match\<close> that
  fits the node is taken.
\<close>

definition visit :: "world \<Rightarrow> node list \<Rightarrow> run_state \<Rightarrow> node \<Rightarrow> run_state" where
  "visit w targets st node =
     (case kind node of
        TestKind \<Rightarrow>
          if includes_node targets node then
            (let tabulation = tabulationForNode (fullyQualifiedName node)
             in case exec w node of
                  None \<Rightarrow>
                    st\<lparr>log := log st @ [Exec (nid node),
                          LoggerInfo [tabulation, successDescription w (name node)]],
                       successes := successes st + 1\<rparr>
                | Some error \<Rightarrow>
                    st\<lparr>log := log st @ [Exec (nid node),
                          LoggerInfo [tabulation, failureDescription w (name node) None]],
                       failures := failures st @ [(node, error)]\<rparr>)
          else st
      | EntityKind \<Rightarrow>
          (let tabulation = tabulationForNode (fullyQualifiedName node)
           in if list_ex (\<lambda>target. includes_node (descendants node) target) targets
              then st\<lparr>log := log st @ [LoggerInfo [tabulation, name node]]\<rparr>
              else st)
      | OtherKind \<Rightarrow> st)"

definition run_tests :: "world \<Rightarrow> node list \<Rightarrow> node \<Rightarrow> run_state" where
  "run_tests w targets environment =
     foldl (visit w targets) \<lparr>successes = 0, failures = [], log = []\<rparr>
       (forEach_nodes environment)"

record outcome =
  exit_code :: nat
  events :: "event list"

text \<open>The \<open>catch\<close> of the command: \<open>handleError\<close>, then \<open>process.exit(1)\<close>.\<close>

definition aborted :: "world \<Rightarrow> event list \<Rightarrow> js_error \<Rightarrow> outcome" where
  "aborted w evs error = \<lparr>exit_code = 1, events = evs @ handleError w error\<rparr>"

definition test_command :: "world \<Rightarrow> string option \<Rightarrow> Options \<Rightarrow> outcome" where
  "test_command w flt opts =
     (case validateParameters (capture_stack w) flt opts of
        Inl error \<Rightarrow> aborted w [] error
      | Inr _ \<Rightarrow>
          (let ev1 = [LoggerInfo [''Running all tests '' @
                        (if truthy flt
                         then ''matching '' @ valueDescription w (the flt) @ '' ''
                         else []) @
                        ''on '' @ valueDescription w (project opts)],
                      BuildEnvironment (project opts)]
           in case buildEnvironmentForProject w (project opts) of
                Inl error \<Rightarrow> aborted w ev1 error
              | Inr environment \<Rightarrow>
                  (case validateEnvironment w environment (skipValidations opts) of
                     (ev2, Inl error) \<Rightarrow> aborted w (ev1 @ ev2) error
                   | (ev2, Inr _) \<Rightarrow>
                       (let targets = getTarget environment flt opts;
                            ev3 = [LoggerInfo [''Running '' @ show_nat (length targets) @
                                     '' tests...'']] @
                                  (if debug w then [ConsoleTime ''Run finished''] else []) @
                                  [Interpret (nid environment)]
                        in case interpret' w environment of
                             Some error \<Rightarrow> aborted w (ev1 @ ev2 @ ev3) error
                           | None \<Rightarrow>
                               (let st = run_tests w targets environment;
                                    ev4 = log st @ [ConsoleLog] @
                                      (if debug w then [ConsoleTimeEnd ''Run finished'']
                                       else []) @
                                      concat (map (\<lambda>(t, error).
                                        [ConsoleLog,
                                         LoggerError [failureDescription w
                                           (bold w (fullyQualifiedName t)) (Some error)]])
                                        (failures st)) @
                                      [LoggerInfo [ENTER,
                                         successDescription w
                                           (show_nat (successes st) @ '' passing''),
                                         (if failures st \<noteq> []
                                          then failureDescription w
                                                 (show_nat (length (failures st)) @
                                                  '' failing'') None
                                          else []),
                                         ENTER]]
                                in \<lparr>exit_code = (if failures st \<noteq> [] then 2 else 0),
                                    events = ev1 @ ev2 @ ev3 @ ev4\<rparr>)))))"

section \<open>The claims in the words of the specification\<close>

text \<open>
  The composite filter as the specification words it: the values among the options that
  are given and not empty, in order, with a dot between two of them.
\<close>

fun dotted :: "string list \<Rightarrow> string" where
  "dotted [] = []"
| "dotted (x # xs) = x @ concat (map (\<lambda>y. CHR ''.'' # y) xs)"

definition nonempty_values :: "string option list \<Rightarrow> string list" where
  "nonempty_values vs =
     concat (map (\<lambda>v. case v of None \<Rightarrow> [] | Some s \<Rightarrow> if s = [] then [] else [s]) vs)"

text \<open>
  The selection as the specification words it: quote characters are stripped from the
  filter that was computed, whichever its origin, and from the name of each candidate.
\<close>

definition strip_quotes :: "string \<Rightarrow> string" where
  "strip_quotes s = filter (\<lambda>c. c \<noteq> quote_char) s"

definition selection_as_claimed :: "node \<Rightarrow> string option \<Rightarrow> Options \<Rightarrow> node list" where
  "selection_as_claimed env flt opts =
     filter (\<lambda>t. includes_str (strip_quotes (fullyQualifiedName t))
                  (strip_quotes (case flt of
                                   Some f \<Rightarrow> f
                                 | None \<Rightarrow> dotted (nonempty_values
                                     [file' opts, describe opts, test opts]))))
       (possibleTargets env)"

text \<open>
  The filter that takes effect: the free-text filter without its quote characters, or
  else the composite of the options, as it was given.
\<close>

definition effective_filter :: "string option \<Rightarrow> Options \<Rightarrow> string" where
  "effective_filter flt opts =
     (case flt of
        Some f \<Rightarrow> strip_quotes f
      | None \<Rightarrow> dotted (nonempty_values [file' opts, describe opts, test opts]))"

text \<open>The events that build, validate, interpret or execute: they touch the environment.\<close>

fun touches_environment :: "event \<Rightarrow> bool" where
  "touches_environment (BuildEnvironment p) = True"
| "touches_environment (Validate i) = True"
| "touches_environment (Interpret i) = True"
| "touches_environment (Exec i) = True"
| "touches_environment e = False"

text \<open>The tests that a run has executed, in order, by identity.\<close>

fun executed :: "event list \<Rightarrow> nat list" where
  "executed [] = []"
| "executed (Exec i # es) = i # executed es"
| "executed (e # es) = executed es"

text \<open>
  What the traversal reports for one node: a selected test is executed and its line is
  logged; an entity that is not a test gets a header when a selected target is among its
  descendants; every other node gets nothing.
\<close>

definition test_report :: "world \<Rightarrow> node \<Rightarrow> event list" where
  "test_report w n =
     [Exec (nid n),
      LoggerInfo [tabulationForNode (fullyQualifiedName n),
                  (case exec w n of
                     None \<Rightarrow> successDescription w (name n)
                   | Some error \<Rightarrow> failureDescription w (name n) None)]]"

definition has_selected_descendant :: "node list \<Rightarrow> node \<Rightarrow> bool" where
  "has_selected_descendant targets n =
     (\<exists>t\<in>set targets. \<exists>d\<in>set (descendants n). nid d = nid t)"

definition node_report :: "world \<Rightarrow> node list \<Rightarrow> node \<Rightarrow> event list" where
  "node_report w targets n =
     (if is_Test n then (if includes_node targets n then test_report w n else [])
      else if kind n = EntityKind \<and> has_selected_descendant targets n
           then [LoggerInfo [tabulationForNode (fullyQualifiedName n), name n]]
      else [])"

text \<open>The tests of a list of nodes that the traversal executes.\<close>

definition selected :: "node list \<Rightarrow> node list \<Rightarrow> node list" where
  "selected targets ns = filter (\<lambda>n. is_Test n \<and> includes_node targets n) ns"

section \<open>Example inputs\<close>

definition example_options :: Options where
  "example_options =
     \<lparr>file' = None, describe = None, test = None, project = ''.'', skipValidations = False\<rparr>"

definition plain_test :: node where
  \<open>plain_test = Node 2 TestKind ''"first"'' ''a."d"."first"'' False []\<close>

definition only_test_1 :: node where
  \<open>only_test_1 = Node 3 TestKind ''"second"'' ''a."d"."second"'' True []\<close>

definition only_test_2 :: node where
  \<open>only_test_2 = Node 4 TestKind ''"third"'' ''a."d"."third"'' True []\<close>

definition only_environment :: node where
  \<open>only_environment =
     Node 0 OtherKind [] [] False
       [Node 1 EntityKind ''"d"'' ''a."d"'' False [plain_test, only_test_1, only_test_2]]\<close>

definition single_only_environment :: node where
  \<open>single_only_environment =
     Node 0 OtherKind [] [] False
       [Node 1 EntityKind ''"d"'' ''a."d"'' False [plain_test, only_test_1]]\<close>

definition mixed_depth_environment :: node where
  "mixed_depth_environment =
     Node 0 OtherKind [] [] False
       [Node 1 EntityKind ''d'' ''f.d'' False [Node 3 TestKind ''deep'' ''f.d.deep'' True []],
        Node 4 TestKind ''shallow'' ''f.shallow'' True []]"

definition quoted_test :: node where
  \<open>quoted_test = Node 2 TestKind ''"t"'' ''a."t"'' False []\<close>

definition quoted_environment :: node where
  \<open>quoted_environment =
     Node 0 OtherKind [] [] False [Node 1 EntityKind ''a'' ''a'' False [quoted_test]]\<close>

definition quoted_options :: Options where
  \<open>quoted_options = example_options\<lparr>test := Some ''"t"''\<rparr>\<close>

definition test_passes :: node where
  \<open>test_passes =
     Node 3 TestKind ''"passes"'' ''a."d"."passes"'' False [Node 4 OtherKind [] [] False []]\<close>

definition test_fails :: node where
  \<open>test_fails = Node 5 TestKind ''"fails"'' ''a."d"."fails"'' False []\<close>

definition test_other :: node where
  \<open>test_other = Node 7 TestKind ''"other"'' ''b."other"'' False []\<close>

definition example_environment :: node where
  \<open>example_environment =
     Node 0 OtherKind [] [] False
       [Node 1 EntityKind ''a'' ''a'' False
          [Node 2 EntityKind ''"d"'' ''a."d"'' False [test_passes, test_fails]],
        Node 6 EntityKind ''b'' ''b'' False [test_other]]\<close>

definition boom_error :: js_error where
  "boom_error =
     \<lparr>message = ''boom'',
      stack = Some (''Error: boom'' @ [newline_char] @ ''    at f (a.wtest:1)'')\<rparr>"

definition derived_error :: js_error where
  "derived_error =
     \<lparr>message = ''boom'',
      stack = Some (''Error: boom'' @ [newline_char] @ ''Derived from TypeScript stack'' @
                    [newline_char] @ ''    at g'')\<rparr>"

definition example_world :: world where
  "example_world =
     \<lparr>red = id, green = id, blue = id, yellowBright = id, bold = id, italic = id,
      stack_trace_header = ''Derived from TypeScript stack'',
      debug = False,
      capture_stack = (\<lambda>msg. None),
      buildEnvironmentForProject = (\<lambda>p. Inr example_environment),
      validate = (\<lambda>env. Inr []),
      interpret' = (\<lambda>env. None),
      exec = (\<lambda>n. if nid n = 5 then Some boom_error else None)\<rparr>"

definition failing_validation_world :: world where
  "failing_validation_world =
     example_world\<lparr>validate :=
       (\<lambda>env. Inr [\<lparr>level = ''error'', code = ''shouldNotBeEmpty'', sourceInfo = None\<rparr>])\<rparr>"

section \<open>Strings: auxiliary facts\<close>

lemma replaceAll_single_empty: "replaceAll s [c] [] = filter (\<lambda>x. x \<noteq> c) s"
proof (induction s)
  case Nil
  show ?case by (subst replaceAll.simps) simp
next
  case (Cons a s)
  show ?case
  proof (cases "a = c")
    case True
    have "replaceAll (a # s) [c] [] = replaceAll s [c] []"
      by (subst replaceAll.simps) (simp add: True)
    then show ?thesis using Cons True by simp
  next
    case False
    have "replaceAll (a # s) [c] [] = a # replaceAll s [c] []"
      using False by (subst replaceAll.simps) auto
    then show ?thesis using Cons False by simp
  qed
qed

lemma sanitize_Some: "sanitize (Some s) = Some (filter (\<lambda>c. c \<noteq> quote_char) s)"
  by (simp add: sanitize_def replaceAll_single_empty)

lemma sanitize_None: "sanitize None = None"
  by (simp add: sanitize_def)

lemma includes_str_iff: "includes_str s sub \<longleftrightarrow> (\<exists>ps ss. s = ps @ sub @ ss)"
proof (induction s)
  case Nil
  then show ?case by auto
next
  case (Cons c cs)
  show ?case
  proof
    assume "includes_str (c # cs) sub"
    then consider "prefix sub (c # cs)" | "includes_str cs sub" by auto
    then show "\<exists>ps ss. c # cs = ps @ sub @ ss"
    proof cases
      case 1
      then obtain ss where "c # cs = sub @ ss" by (auto simp: prefix_def)
      then have "c # cs = [] @ sub @ ss" by simp
      then show ?thesis by blast
    next
      case 2
      with Cons.IH obtain ps ss where "cs = ps @ sub @ ss" by blast
      then have "c # cs = (c # ps) @ sub @ ss" by simp
      then show ?thesis by blast
    qed
  next
    assume "\<exists>ps ss. c # cs = ps @ sub @ ss"
    then obtain ps ss where eq: "c # cs = ps @ sub @ ss" by blast
    show "includes_str (c # cs) sub"
    proof (cases ps)
      case Nil
      with eq have "prefix sub (c # cs)" by (auto simp: prefix_def)
      then show ?thesis by simp
    next
      case (Cons p ps')
      with eq have "cs = ps' @ sub @ ss" by simp
      with Cons.IH have "includes_str cs sub" by blast
      then show ?thesis by simp
    qed
  qed
qed

lemma includes_str_empty: "includes_str s []"
  by (cases s) simp_all

text \<open>
  \<open>split\<close> cuts at every separator and nowhere else: joining the segments with the
  separator gives the string back, and no segment holds a separator.
\<close>

lemma split_not_Nil: "split s c \<noteq> []"
  by (induction s) (auto split: list.splits)

lemma length_split: "length (split s c) = Suc (count_list s c)"
proof (induction s)
  case Nil
  show ?case by simp
next
  case (Cons a s)
  then show ?case using split_not_Nil [of s c] by (auto split: list.splits)
qed

lemma join_split: "join (split s c) [c] = s"
proof (induction s)
  case Nil
  show ?case by simp
next
  case (Cons a s)
  show ?case
  proof (cases "a = c")
    case True
    then show ?thesis using Cons split_not_Nil [of s c]
      by (cases "split s c") auto
  next
    case False
    then show ?thesis using Cons split_not_Nil [of s c]
      by (cases "split s c"; cases "tl (split s c)") auto
  qed
qed

lemma split_segments: "seg \<in> set (split s c) \<Longrightarrow> c \<notin> set seg"
  by (induction s arbitrary: seg) (auto split: list.splits if_splits)

lemma repeat_two_spaces: "repeat ''  '' n = replicate (2 * n) (CHR '' '')"
  by (induction n) (auto simp: repeat_def)

lemma join_dotted: "join xs ''.'' = dotted xs"
  by (induction xs "''.''" rule: join.induct) auto

lemma truthy_values: "map the (filter truthy vs) = nonempty_values vs"
proof (induction vs)
  case Nil
  show ?case by (simp add: nonempty_values_def)
next
  case (Cons v vs)
  then show ?case by (cases v) (auto simp: nonempty_values_def)
qed

text \<open>
  \<open>indexOf\<close> is \<open>-1\<close> exactly when the pattern does not occur; otherwise it is the
  length of the shortest text before an occurrence.
\<close>

lemma indexOf_from_absent:
  "0 \<le> i \<Longrightarrow> indexOf_from i s pat = - 1 \<longleftrightarrow> \<not> includes_str s pat"
  by (induction s arbitrary: i) auto

lemma indexOf_absent: "indexOf s pat = - 1 \<longleftrightarrow> \<not> includes_str s pat"
  by (simp add: indexOf_def indexOf_from_absent)

lemma indexOf_from_present:
  "includes_str s pat \<Longrightarrow>
     \<exists>ps ss. s = ps @ pat @ ss \<and> indexOf_from i s pat = i + int (length ps) \<and>
             (\<forall>ps' ss'. s = ps' @ pat @ ss' \<longrightarrow> length ps \<le> length ps')"
proof (induction s arbitrary: i)
  case Nil
  then show ?case by auto
next
  case (Cons c cs)
  show ?case
  proof (cases "prefix pat (c # cs)")
    case True
    then obtain ss where eq: "c # cs = [] @ pat @ ss" by (auto simp: prefix_def)
    from True have idx: "indexOf_from i (c # cs) pat = i + int (length ([] :: string))"
      by simp
    have "\<forall>ps' ss'. c # cs = ps' @ pat @ ss' \<longrightarrow> length ([] :: string) \<le> length ps'"
      by simp
    with eq idx show ?thesis by blast
  next
    case False
    with Cons.prems have "includes_str cs pat" by simp
    from Cons.IH [OF this, of "i + 1"] obtain ps ss where
      ps: "cs = ps @ pat @ ss" "indexOf_from (i + 1) cs pat = i + 1 + int (length ps)"
        "\<forall>ps' ss'. cs = ps' @ pat @ ss' \<longrightarrow> length ps \<le> length ps'"
      by blast
    have "length (c # ps) \<le> length ps'" if "c # cs = ps' @ pat @ ss'" for ps' ss'
    proof (cases ps')
      case Nil
      with that False show ?thesis by (simp add: prefix_def)
    next
      case (Cons p ps'')
      with that have "cs = ps'' @ pat @ ss'" by simp
      with ps(3) Cons show ?thesis by auto
    qed
    then have first: "\<forall>ps' ss'. c # cs = ps' @ pat @ ss' \<longrightarrow> length (c # ps) \<le> length ps'"
      by blast
    from ps(1) have eq: "c # cs = (c # ps) @ pat @ ss"
      by simp
    from ps(2) False have idx: "indexOf_from i (c # cs) pat = i + int (length (c # ps))"
      by simp
    from eq idx first show ?thesis by blast
  qed
qed

section \<open>The example inputs, evaluated\<close>

lemma example_options_simps:
  "file' example_options = None" "describe example_options = None"
  "test example_options = None" "project example_options = ''.''"
  "skipValidations example_options = False"
  by (simp_all add: example_options_def)

lemma example_world_simps:
  "buildEnvironmentForProject example_world p = Inr example_environment"
  "validate example_world env = Inr []"
  "interpret' example_world env = None"
  "exec example_world n = (if nid n = 5 then Some boom_error else None)"
  "stack_trace_header example_world = ''Derived from TypeScript stack''"
  "capture_stack example_world msg = None"
  by (simp_all add: example_world_def)

lemma failing_validation_world_simps:
  "buildEnvironmentForProject failing_validation_world p = Inr example_environment"
  "validate failing_validation_world env =
     Inr [\<lparr>level = ''error'', code = ''shouldNotBeEmpty'', sourceInfo = None\<rparr>]"
  by (simp_all add: failing_validation_world_def example_world_def)

lemma possibleTargets_only_environment:
  "possibleTargets only_environment = [plain_test, only_test_1, only_test_2]"
  by code_simp

lemma possibleTargets_single_only_environment:
  "possibleTargets single_only_environment = [plain_test, only_test_1]"
  by code_simp

lemma possibleTargets_quoted_environment:
  "possibleTargets quoted_environment = [quoted_test]"
  by code_simp

text \<open>
  A test after a sibling that holds a deeper test: \<open>descendants\<close> meets the shallow
  test first, \<open>forEach\<close> the deep one, and with both flagged only the shallow one is
  the target.
\<close>

lemma mixed_depth_orders:
  "map nid (descendants mixed_depth_environment) = [1, 4, 3] \<and>
   map nid (forEach_nodes mixed_depth_environment) = [0, 1, 3, 4] \<and>
   map nid (getTarget mixed_depth_environment None example_options) = [4]"
  by code_simp

lemma distinct_nodes_example: "distinct_nodes example_environment"
  by (simp add: distinct_nodes_def example_environment_def
      test_passes_def test_fails_def test_other_def)

lemma getTarget_example_all:
  "getTarget example_environment None example_options = [test_other, test_passes, test_fails]"
  by code_simp

lemma forEach_selected_example:
  "filter (\<lambda>n. is_Test n \<and> includes_node [test_other, test_passes, test_fails] n)
     (forEach_nodes example_environment) = [test_passes, test_fails, test_other]"
  by code_simp

lemma getTarget_example_passes:
  "getTarget example_environment (Some ''passes'') example_options = [test_passes]"
  by code_simp

section \<open>The only-flag\<close>

lemma find_first: "\<forall>x\<in>set pre. \<not> P x \<Longrightarrow> P t \<Longrightarrow> find P (pre @ t # post) = Some t"
  by (induction pre) auto

text \<open>
  C1. When a test of the environment is flagged only, \<open>getTarget\<close> returns a list of
  one element, which is an only-flagged test of the environment, whatever the filter and
  the options are; when one test alone is flagged, that test is the element.
\<close>

theorem getTarget_only:
  assumes "t \<in> set (possibleTargets env)" and "isOnly t"
  shows "(\<exists>u. getTarget env flt opts = [u] \<and> u \<in> set (descendants env) \<and>
              is_Test u \<and> isOnly u) \<and>
         ((\<forall>u\<in>set (possibleTargets env). isOnly u \<longrightarrow> u = t) \<longrightarrow>
            getTarget env flt opts = [t])"
proof -
  from assms obtain u where u: "find isOnly (possibleTargets env) = Some u"
    by (cases "find isOnly (possibleTargets env)") (auto simp: find_None_iff)
  then have mem: "u \<in> set (possibleTargets env)" and only: "isOnly u"
    by (auto simp: find_Some_iff)
  have res: "getTarget env flt opts = [u]"
    by (simp add: getTarget_def u)
  from mem have "u \<in> set (descendants env)" "is_Test u"
    by (auto simp: possibleTargets_def)
  with res only mem show ?thesis by auto
qed

theorem getTarget_only_witness:
  "only_test_1 \<in> set (possibleTargets single_only_environment) \<and> isOnly only_test_1 \<and>
   filter isOnly (possibleTargets single_only_environment) = [only_test_1] \<and>
   getTarget single_only_environment (Some ''first'') example_options = [only_test_1]"
proof -
  have h1: "only_test_1 \<in> set (possibleTargets single_only_environment)"
    by (simp add: possibleTargets_single_only_environment)
  have h2: "isOnly only_test_1"
    by (simp add: only_test_1_def)
  have h3: "\<forall>u\<in>set (possibleTargets single_only_environment). isOnly u \<longrightarrow> u = only_test_1"
    by (simp add: possibleTargets_single_only_environment plain_test_def)
  have h4: "filter isOnly (possibleTargets single_only_environment) = [only_test_1]"
    by (simp add: possibleTargets_single_only_environment plain_test_def only_test_1_def)
  show ?thesis
    using h1 h2 h3 h4 getTarget_only [OF h1 h2, of "Some ''first''" example_options]
    by blast
qed

text \<open>
  C10. When several tests are flagged only, \<open>getTarget\<close> returns the first of them in
  the order of the environment's descendants, alone: the only-flagged tests after it,
  the filter and the options have no effect.
\<close>

theorem getTarget_first_only:
  assumes "possibleTargets env = pre @ t # post"
    and "\<forall>x\<in>set pre. \<not> isOnly x"
    and "isOnly t"
  shows "getTarget env flt opts = [t]"
  using assms by (simp add: getTarget_def find_first)

theorem getTarget_first_only_witness:
  "possibleTargets only_environment = [plain_test] @ only_test_1 # [only_test_2] \<and>
   \<not> isOnly plain_test \<and> isOnly only_test_1 \<and> isOnly only_test_2 \<and>
   getTarget only_environment (Some ''third'') example_options = [only_test_1]"
proof -
  have h1: "possibleTargets only_environment = [plain_test] @ only_test_1 # [only_test_2]"
    by (simp add: possibleTargets_only_environment)
  have h2: "\<forall>x\<in>set [plain_test]. \<not> isOnly x"
    by (simp add: plain_test_def)
  have h3: "isOnly only_test_1" "isOnly only_test_2"
    by (simp_all add: only_test_1_def only_test_2_def)
  show ?thesis
    using h1 h2 h3 getTarget_first_only [OF h1 h2 h3(1), of "Some ''third''" example_options]
    by simp
qed

section \<open>The filter\<close>

lemma filterTest_cases:
  "filterTest None opts = dotted (nonempty_values [file' opts, describe opts, test opts])"
  "filterTest (Some f) opts = filter (\<lambda>c. c \<noteq> quote_char) f"
proof -
  have "fqnByOptionalParameters opts =
          dotted (nonempty_values [file' opts, describe opts, test opts])"
    unfolding fqnByOptionalParameters_def truthy_values join_dotted ..
  then show "filterTest None opts =
      dotted (nonempty_values [file' opts, describe opts, test opts])"
    by (simp add: filterTest_def sanitize_None)
  show "filterTest (Some f) opts = filter (\<lambda>c. c \<noteq> quote_char) f"
    by (simp add: filterTest_def sanitize_Some)
qed

lemma testMatches_includes:
  "testMatches f = (\<lambda>t. includes_str (strip_quotes (fullyQualifiedName t)) f)"
  by (rule ext) (auto simp: testMatches_def sanitize_Some strip_quotes_def includes_str_empty)

text \<open>
  C5. Without a free-text filter, the filter used for matching is the composite: the
  non-empty values among \<open>file\<close>, \<open>describe\<close> and \<open>test\<close>, in that order, joined
  with a dot. With a free-text filter, that filter (its quote characters stripped) is used
  and the composite is not. This filter is the one that \<open>getTarget\<close> matches with when
  no test is flagged only. With \<open>file\<close> \<open>a\<close> and \<open>describe\<close> \<open>b\<close> the filter is
  \<open>a.b\<close>.
\<close>

theorem filterTest_source:
  "filterTest None opts = dotted (nonempty_values [file' opts, describe opts, test opts]) \<and>
   filterTest (Some f) opts = filter (\<lambda>c. c \<noteq> quote_char) f \<and>
   (find isOnly (possibleTargets env) = None \<longrightarrow>
      getTarget env flt opts =
        filter (testMatches (filterTest flt opts)) (possibleTargets env))"
  by (simp add: filterTest_cases getTarget_def)

theorem filterTest_source_witness:
  "filterTest None (example_options\<lparr>file' := Some ''a'', describe := Some ''b''\<rparr>) = ''a.b'' \<and>
   filterTest (Some ''c'') (example_options\<lparr>file' := Some ''a'', describe := Some ''b''\<rparr>) = ''c''"
  using filterTest_source [of "example_options\<lparr>file' := Some ''a'', describe := Some ''b''\<rparr>" "''c''"]
  by (simp add: example_options_def nonempty_values_def quote_char_def)

text \<open>
  C3, as the specification states it, fails: quote characters are not stripped from a
  filter that comes from the options. With the option \<open>test\<close> given as \<open>"t"\<close>, quotes
  included, the test \<open>a."t"\<close> is not selected, although its name without quotes contains
  the filter without quotes.
\<close>

theorem quoted_option_counterexample:
  "\<not> list_ex isOnly (possibleTargets quoted_environment) \<and>
   getTarget quoted_environment None quoted_options = [] \<and>
   selection_as_claimed quoted_environment None quoted_options = [quoted_test]"
proof -
  have ft: "filterTest None quoted_options = [quote_char, CHR ''t'', quote_char]"
    by (simp add: filterTest_def sanitize_None fqnByOptionalParameters_def quoted_options_def
        example_options_def quote_char_def)
  have "getTarget quoted_environment None quoted_options = []"
    by (simp add: getTarget_def possibleTargets_quoted_environment ft testMatches_includes)
       (simp add: quoted_test_def strip_quotes_def quote_char_def)
  moreover have "selection_as_claimed quoted_environment None quoted_options = [quoted_test]"
    by (simp add: selection_as_claimed_def possibleTargets_quoted_environment
        quoted_options_def example_options_def nonempty_values_def)
       (simp add: quoted_test_def strip_quotes_def quote_char_def)
  moreover have "\<not> list_ex isOnly (possibleTargets quoted_environment)"
    by (simp add: possibleTargets_quoted_environment quoted_test_def)
  ultimately show ?thesis by simp
qed

text \<open>
  C3, amended. When no test is flagged only, the selected tests are exactly the tests
  whose fully-qualified name, with its quote characters stripped, contains the effective
  filter as a contiguous substring. The effective filter is the free-text filter with its
  quote characters stripped when one is given, and otherwise the composite of the
  options, as given. Characters are compared as they are, so matching is case-sensitive;
  an empty effective filter selects every test.
\<close>

theorem getTarget_matching:
  assumes "\<not> list_ex isOnly (possibleTargets env)"
  shows "getTarget env flt opts =
           filter (\<lambda>t. includes_str (strip_quotes (fullyQualifiedName t))
                        (effective_filter flt opts))
             (possibleTargets env) \<and>
         (\<forall>s sub. includes_str s sub \<longleftrightarrow> (\<exists>ps ss. s = ps @ sub @ ss)) \<and>
         (effective_filter flt opts = [] \<longrightarrow> getTarget env flt opts = possibleTargets env)"
proof -
  have none: "find isOnly (possibleTargets env) = None"
    using assms by (simp add: find_None_iff list_ex_iff)
  have eff: "filterTest flt opts = effective_filter flt opts"
  proof (cases flt)
    case None
    then show ?thesis by (simp add: filterTest_cases effective_filter_def)
  next
    case (Some f)
    then show ?thesis
      by (simp add: filterTest_cases effective_filter_def strip_quotes_def)
  qed
  have sel: "getTarget env flt opts =
           filter (\<lambda>t. includes_str (strip_quotes (fullyQualifiedName t))
                        (effective_filter flt opts))
             (possibleTargets env)"
    by (simp add: getTarget_def none eff testMatches_includes)
  moreover have "effective_filter flt opts = [] \<longrightarrow> getTarget env flt opts = possibleTargets env"
    by (simp add: sel includes_str_empty)
  ultimately show ?thesis
    using includes_str_iff by blast
qed

theorem getTarget_matching_witness:
  \<open>\<not> list_ex isOnly (possibleTargets quoted_environment) \<and>
   getTarget quoted_environment (Some ''"t"'') example_options = [quoted_test] \<and>
   getTarget quoted_environment (Some ''T'') example_options = [] \<and>
   getTarget quoted_environment None (example_options\<lparr>describe := Some ''a'', test := Some ''t''\<rparr>) = [quoted_test] \<and>
   getTarget quoted_environment None quoted_options = []\<close>
proof -
  have h: "\<not> list_ex isOnly (possibleTargets quoted_environment)"
    by (simp add: possibleTargets_quoted_environment quoted_test_def)
  show ?thesis
    using h getTarget_matching [OF h, of \<open>Some ''"t"''\<close> example_options, THEN conjunct1]
      getTarget_matching [OF h, of \<open>Some ''T''\<close> example_options, THEN conjunct1]
      getTarget_matching [OF h, of None
        \<open>example_options\<lparr>describe := Some ''a'', test := Some ''t''\<rparr>\<close>, THEN conjunct1]
      getTarget_matching [OF h, of None quoted_options, THEN conjunct1]
    by (simp add: possibleTargets_quoted_environment effective_filter_def strip_quotes_def
        quoted_test_def quote_char_def example_options_def quoted_options_def
        nonempty_values_def)
qed

section \<open>Validation of the parameters\<close>

text \<open>
  C4. \<open>validateParameters\<close> raises exactly when the free-text filter is not empty and
  one of \<open>file\<close>, \<open>describe\<close>, \<open>test\<close> is set, where an option is set when it holds
  a non-empty string. When it raises, the command handles the error and exits with code 1:
  its events are those of \<open>handleError\<close> alone, so no environment was built,
  validated, interpreted or executed.
\<close>

theorem validateParameters_raises:
  "(isl (validateParameters (capture_stack w) flt opts) \<longleftrightarrow>
      (\<exists>f. flt = Some f \<and> f \<noteq> []) \<and>
      ((\<exists>s. file' opts = Some s \<and> s \<noteq> []) \<or> (\<exists>s. describe opts = Some s \<and> s \<noteq> []) \<or>
       (\<exists>s. test opts = Some s \<and> s \<noteq> []))) \<and>
   (isl (validateParameters (capture_stack w) flt opts) \<longrightarrow>
      exit_code (test_command w flt opts) = 1 \<and>
      events (test_command w flt opts) =
        handleError w (projl (validateParameters (capture_stack w) flt opts)) \<and>
      \<not> list_ex touches_environment (events (test_command w flt opts)))"
proof -
  have t: "truthy v \<longleftrightarrow> (\<exists>s. v = Some s \<and> s \<noteq> [])" for v
    by (cases v) auto
  have "isl (validateParameters (capture_stack w) flt opts) \<longleftrightarrow>
      truthy flt \<and> (truthy (file' opts) \<or> truthy (describe opts) \<or> truthy (test opts))"
    by (simp add: validateParameters_def)
  moreover have "\<not> list_ex touches_environment (handleError w e)" for e
    by (simp add: handleError_def)
  moreover have "isl (validateParameters (capture_stack w) flt opts) \<Longrightarrow>
      test_command w flt opts =
        aborted w [] (projl (validateParameters (capture_stack w) flt opts))"
    by (cases "validateParameters (capture_stack w) flt opts") (simp_all add: test_command_def)
  ultimately show ?thesis
    by (simp add: t aborted_def)
qed

theorem validateParameters_raises_witness:
  "isl (validateParameters (capture_stack example_world) (Some ''passes'')
          (example_options\<lparr>test := Some ''x''\<rparr>)) \<and>
   \<not> isl (validateParameters (capture_stack example_world) (Some ''passes'') example_options) \<and>
   exit_code (test_command example_world (Some ''passes'')
                (example_options\<lparr>test := Some ''x''\<rparr>)) = 1 \<and>
   \<not> list_ex touches_environment
        (events (test_command example_world (Some ''passes'')
                   (example_options\<lparr>test := Some ''x''\<rparr>)))"
proof -
  have a: "isl (validateParameters (capture_stack example_world) (Some ''passes'')
                  (example_options\<lparr>test := Some ''x''\<rparr>))"
    by (simp add: validateParameters_def)
  have b: "\<not> isl (validateParameters (capture_stack example_world) (Some ''passes'')
                    example_options)"
    by (simp add: validateParameters_def example_options_simps)
  show ?thesis
    using a b validateParameters_raises [of example_world "Some ''passes''"
          "example_options\<lparr>test := Some ''x''\<rparr>"]
    by blast
qed

section \<open>The traversal\<close>

lemma includes_node_iff: "includes_node xs n \<longleftrightarrow> (\<exists>x\<in>set xs. nid x = nid n)"
  by (simp add: includes_node_def list_ex_iff)

lemma includes_node_image: "includes_node xs n \<longleftrightarrow> nid n \<in> nid ` set xs"
  unfolding includes_node_iff image_iff by metis

lemma log_visit: "log (visit w targets st n) = log st @ node_report w targets n"
  by (cases "kind n")
     (auto simp: visit_def node_report_def test_report_def is_Test_def
        has_selected_descendant_def includes_node_iff list_ex_iff Let_def
        split: option.splits)

lemma log_foldl_visit:
  "log (foldl (visit w targets) st ns) = log st @ concat (map (node_report w targets) ns)"
  by (induction ns arbitrary: st) (simp_all add: log_visit)

lemma successes_visit:
  "successes (visit w targets st n) =
     successes st + (if is_Test n \<and> includes_node targets n \<and> exec w n = None then 1 else 0)"
  by (cases "kind n") (auto simp: visit_def is_Test_def Let_def split: option.splits)

lemma failures_visit:
  "failures (visit w targets st n) =
     failures st @ (if is_Test n \<and> includes_node targets n \<and> exec w n \<noteq> None
                    then [(n, the (exec w n))] else [])"
  by (cases "kind n") (auto simp: visit_def is_Test_def Let_def split: option.splits)

lemma successes_foldl_visit:
  "successes (foldl (visit w targets) st ns) =
     successes st + length (filter (\<lambda>n. exec w n = None) (selected targets ns))"
  by (induction ns arbitrary: st) (simp_all add: successes_visit selected_def)

lemma failures_foldl_visit:
  "failures (foldl (visit w targets) st ns) =
     failures st @ map (\<lambda>n. (n, the (exec w n)))
                     (filter (\<lambda>n. exec w n \<noteq> None) (selected targets ns))"
  by (induction ns arbitrary: st) (simp_all add: failures_visit selected_def)

lemma executed_append: "executed (xs @ ys) = executed xs @ executed ys"
  by (induction xs rule: executed.induct) simp_all

lemma executed_node_report:
  "executed (node_report w targets n) =
     (if is_Test n \<and> includes_node targets n then [nid n] else [])"
  by (simp add: node_report_def test_report_def)

lemma executed_reports:
  "executed (concat (map (node_report w targets) ns)) = map nid (selected targets ns)"
  by (induction ns) (simp_all add: executed_append executed_node_report selected_def)

text \<open>
  The two traversals meet the same nodes: the descendants of a node are, up to their
  order, the nodes that \<open>forEach\<close> visits after the node itself.
\<close>

lemma forEach_nodes_Cons: "forEach_nodes n = n # concat (map forEach_nodes (children n))"
  by (cases n) simp

lemma mset_forEach_children:
  "mset (concat (map forEach_nodes cs)) =
     mset cs + mset (concat (map (\<lambda>c. concat (map forEach_nodes (children c))) cs))"
proof (induction cs)
  case Nil
  show ?case by simp
next
  case (Cons c cs)
  have "mset (forEach_nodes c) = {#c#} + mset (concat (map forEach_nodes (children c)))"
    by (subst forEach_nodes_Cons) simp
  with Cons show ?case by simp
qed

lemma mset_descendants_queue:
  "mset (descendants_queue q) =
     mset (concat (map (\<lambda>x. concat (map forEach_nodes (children x))) q))"
proof (induction q rule: descendants_queue.induct)
  case 1
  show ?case by simp
next
  case (2 nxt pending)
  then show ?case
    by (simp add: mset_forEach_children [of "children nxt"])
qed

lemma mset_forEach_nodes: "mset (forEach_nodes n) = {#n#} + mset (descendants n)"
  by (subst forEach_nodes_Cons)
     (simp add: descendants_def mset_descendants_queue mset_forEach_children [of "children n"])

lemma set_descendants_forEach: "set (descendants n) \<subseteq> set (forEach_nodes n)"
proof -
  have "set_mset (mset (forEach_nodes n)) = set_mset ({#n#} + mset (descendants n))"
    by (simp only: mset_forEach_nodes)
  then show ?thesis by auto
qed

lemma distinct_descendants:
  assumes "distinct (forEach_nodes n)"
  shows "distinct (descendants n)" and "n \<notin> set (descendants n)"
proof -
  have m: "mset (n # descendants n) = mset (forEach_nodes n)"
    by (simp add: mset_forEach_nodes)
  have "distinct (n # descendants n)"
    using assms mset_eq_imp_distinct_iff [OF m] by blast
  then show "distinct (descendants n)" and "n \<notin> set (descendants n)"
    by simp_all
qed

text \<open>
  The targets are among the nodes of the traversal, and no two nodes of the traversal
  share an identity: the tests that the traversal executes are the targets, each once,
  in the order of the traversal.
\<close>

lemma subseq_distinct: "subseq ys xs \<Longrightarrow> distinct xs \<Longrightarrow> distinct ys"
proof (induction rule: list_emb.induct)
  case (list_emb_Nil ys)
  show ?case by simp
next
  case (list_emb_Cons xs ys y)
  then show ?case by simp
next
  case (list_emb_Cons2 x y xs ys)
  then have "set xs \<subseteq> set ys" by (auto dest: list_emb_set)
  with list_emb_Cons2 show ?case by auto
qed

lemma mset_filter_members:
  assumes "distinct xs" and "distinct ys" and "set ys \<subseteq> set xs"
  shows "mset (filter (\<lambda>x. x \<in> set ys) xs) = mset ys"
proof -
  have eq: "set (filter (\<lambda>x. x \<in> set ys) xs) = set ys"
    using assms(3) by auto
  have d: "distinct (filter (\<lambda>x. x \<in> set ys) xs)"
    using assms(1) by simp
  show ?thesis
    using set_eq_iff_mset_eq_distinct [OF d assms(2)] eq by blast
qed

lemma selected_targets:
  assumes "distinct_nodes env" and "subseq targets (possibleTargets env)"
  shows "mset (selected targets (forEach_nodes env)) = mset targets"
proof -
  let ?ns = "forEach_nodes env"
  have d: "distinct (map nid ?ns)"
    using assms(1) by (simp add: distinct_nodes_def)
  then have dn: "distinct ?ns" and inj: "inj_on nid (set ?ns)"
    by (simp_all add: distinct_map)
  have "subseq (possibleTargets env) (descendants env)"
    by (simp add: possibleTargets_def)
  with assms(2) have sub: "subseq targets (descendants env)"
    by (rule subseq_order.order_trans)
  then have dt: "distinct targets"
    using distinct_descendants(1) [OF dn] by (rule subseq_distinct)
  have "set targets \<subseteq> set (descendants env)"
    using sub by (auto dest: list_emb_set)
  then have mem: "set targets \<subseteq> set ?ns"
    using set_descendants_forEach [of env] by blast
  have "set targets \<subseteq> set (possibleTargets env)"
    using assms(2) by (auto dest: list_emb_set)
  then have tests: "\<forall>t\<in>set targets. is_Test t"
    by (auto simp: possibleTargets_def)
  have "selected targets ?ns = filter (\<lambda>n. n \<in> set targets) ?ns"
    unfolding selected_def
  proof (rule filter_cong [OF refl])
    fix n assume n: "n \<in> set ?ns"
    show "(is_Test n \<and> includes_node targets n) = (n \<in> set targets)"
    proof
      assume "is_Test n \<and> includes_node targets n"
      then obtain t where t: "t \<in> set targets" "nid t = nid n"
        by (auto simp: includes_node_iff)
      with mem n inj have "t = n" by (auto dest: inj_onD)
      with t show "n \<in> set targets" by simp
    next
      assume "n \<in> set targets"
      with tests show "is_Test n \<and> includes_node targets n"
        by (auto simp: includes_node_iff)
    qed
  qed
  also have "mset \<dots> = mset targets"
    using dn dt mem by (rule mset_filter_members)
  finally show ?thesis .
qed

lemma subseq_getTarget: "subseq (getTarget env flt opts) (possibleTargets env)"
proof (cases "find isOnly (possibleTargets env)")
  case None
  then show ?thesis by (simp add: getTarget_def)
next
  case (Some u)
  then have "u \<in> set (possibleTargets env)" by (auto simp: find_Some_iff)
  with Some show ?thesis by (simp add: getTarget_def subseq_singleton_left)
qed

lemma run_tests_successes:
  assumes "distinct_nodes env" and "subseq targets (possibleTargets env)"
  shows "successes (run_tests w targets env) = length (filter (\<lambda>t. exec w t = None) targets)"
proof -
  have "successes (run_tests w targets env) =
      length (filter (\<lambda>t. exec w t = None) (selected targets (forEach_nodes env)))"
    by (simp add: run_tests_def successes_foldl_visit)
  also have "\<dots> = length (filter (\<lambda>t. exec w t = None) targets)"
  proof -
    have "mset (filter (\<lambda>t. exec w t = None) (selected targets (forEach_nodes env))) =
        mset (filter (\<lambda>t. exec w t = None) targets)"
      using selected_targets [OF assms] by simp
    then show ?thesis by (rule mset_eq_length)
  qed
  finally show ?thesis .
qed

lemma run_tests_failures:
  assumes "distinct_nodes env" and "subseq targets (possibleTargets env)"
  shows "mset (map fst (failures (run_tests w targets env))) =
           mset (filter (\<lambda>t. exec w t \<noteq> None) targets)"
  using selected_targets [OF assms]
  by (simp add: run_tests_def failures_foldl_visit comp_def)

lemma run_tests_executed:
  "executed (log (run_tests w targets env)) = map nid (selected targets (forEach_nodes env))"
  by (simp add: run_tests_def log_foldl_visit executed_reports)

text \<open>
  C6. In an environment whose nodes are pairwise distinct objects, the traversal
  executes every selected target exactly once, whether or not earlier targets threw, and
  in the order of the traversal; the failures recorded are the targets that threw, the
  successes count the others, and the number of successes plus the number of failures is
  the number of targets.
\<close>

theorem run_tests_isolation:
  assumes "distinct_nodes env"
  shows "successes (run_tests w (getTarget env flt opts) env) +
           length (failures (run_tests w (getTarget env flt opts) env)) =
           length (getTarget env flt opts) \<and>
         mset (executed (log (run_tests w (getTarget env flt opts) env))) =
           mset (map nid (getTarget env flt opts)) \<and>
         executed (log (run_tests w (getTarget env flt opts) env)) =
           map nid (filter (\<lambda>n. is_Test n \<and> includes_node (getTarget env flt opts) n)
                      (forEach_nodes env)) \<and>
         mset (map fst (failures (run_tests w (getTarget env flt opts) env))) =
           mset (filter (\<lambda>t. exec w t \<noteq> None) (getTarget env flt opts)) \<and>
         successes (run_tests w (getTarget env flt opts) env) =
           length (filter (\<lambda>t. exec w t = None) (getTarget env flt opts))"
proof -
  let ?ts = "getTarget env flt opts"
  have sel: "mset (selected ?ts (forEach_nodes env)) = mset ?ts"
    using assms subseq_getTarget by (rule selected_targets)
  have s: "successes (run_tests w ?ts env) = length (filter (\<lambda>t. exec w t = None) ?ts)"
    using assms subseq_getTarget by (rule run_tests_successes)
  have f: "mset (map fst (failures (run_tests w ?ts env))) =
      mset (filter (\<lambda>t. exec w t \<noteq> None) ?ts)"
    using assms subseq_getTarget by (rule run_tests_failures)
  have e: "executed (log (run_tests w ?ts env)) = map nid (selected ?ts (forEach_nodes env))"
    by (rule run_tests_executed)
  have em: "mset (executed (log (run_tests w ?ts env))) = mset (map nid ?ts)"
    using sel by (simp add: e)
  have "length (filter (\<lambda>t. exec w t = None) ?ts) +
        length (filter (\<lambda>t. exec w t \<noteq> None) ?ts) = length ?ts"
    using sum_length_filter_compl [of "\<lambda>t. exec w t = None" ?ts] by simp
  moreover have "length (failures (run_tests w ?ts env)) =
      length (filter (\<lambda>t. exec w t \<noteq> None) ?ts)"
    using f by (metis length_map size_mset)
  ultimately show ?thesis
    using s f e em by (simp add: selected_def)
qed

theorem run_tests_isolation_witness:
  "distinct_nodes example_environment \<and>
   exec example_world test_fails = Some boom_error \<and>
   getTarget example_environment None example_options = [test_other, test_passes, test_fails] \<and>
   executed (log (run_tests example_world
                    (getTarget example_environment None example_options)
                    example_environment)) = [3, 5, 7] \<and>
   successes (run_tests example_world
                (getTarget example_environment None example_options)
                example_environment) = 2 \<and>
   length (failures (run_tests example_world
                       (getTarget example_environment None example_options)
                       example_environment)) = 1"
proof -
  let ?ts = "getTarget example_environment None example_options"
  let ?st = "run_tests example_world ?ts example_environment"
  note t = run_tests_isolation [OF distinct_nodes_example, of example_world None example_options]
  have g: "?ts = [test_other, test_passes, test_fails]"
    by (rule getTarget_example_all)
  from t have "executed (log ?st) =
      map nid (filter (\<lambda>n. is_Test n \<and> includes_node ?ts n)
                 (forEach_nodes example_environment))"
    by blast
  then have e: "executed (log ?st) = [3, 5, 7]"
    unfolding g forEach_selected_example
    by (simp add: test_passes_def test_fails_def test_other_def)
  from t have "successes ?st = length (filter (\<lambda>t. exec example_world t = None) ?ts)"
    by blast
  then have s: "successes ?st = 2"
    unfolding g
    by (simp add: example_world_simps test_passes_def test_fails_def test_other_def)
  from t have "successes ?st + length (failures ?st) = length ?ts"
    by blast
  with s have f: "length (failures ?st) = 1"
    unfolding g by simp
  have x: "exec example_world test_fails = Some boom_error"
    by (simp add: example_world_simps test_fails_def)
  from distinct_nodes_example x g e s f show ?thesis
    by blast
qed

text \<open>
  C9. The traversal goes once through all the nodes of the environment, and its log is
  the reports of the nodes in that order. For a node that is not a test, the report is a
  header line exactly when the node is an entity and a selected target is among its
  descendants; otherwise the report is empty. The report of such a node never holds an
  execution.
\<close>

theorem run_tests_report:
  "log (run_tests w targets env) =
     concat (map (node_report w targets) (forEach_nodes env)) \<and>
   (\<forall>n. \<not> is_Test n \<longrightarrow>
      node_report w targets n =
        (if kind n = EntityKind \<and>
            (\<exists>t\<in>set targets. \<exists>d\<in>set (descendants n). nid d = nid t)
         then [LoggerInfo [tabulationForNode (fullyQualifiedName n), name n]]
         else []) \<and>
      executed (node_report w targets n) = [])"
  by (simp add: run_tests_def log_foldl_visit executed_node_report)
     (simp add: node_report_def has_selected_descendant_def)

theorem run_tests_report_witness:
  "log (run_tests example_world [test_other] example_environment) =
     [LoggerInfo [[], ''b''], Exec 7,
      LoggerInfo [''  '', successDescription example_world (name test_other)]]"
  using run_tests_report [of example_world "[test_other]" example_environment, THEN conjunct1]
  by (simp add: example_environment_def descendants_def node_report_def test_report_def
      is_Test_def includes_node_def has_selected_descendant_def test_passes_def
      test_fails_def test_other_def example_world_simps tabulationForNode_def repeat_def)

section \<open>Indentation\<close>

text \<open>
  C8. The indentation of a node is two spaces for each level, where the level is the
  number of dot-separated segments of the fully-qualified name minus one, that is the
  number of dots; a name without a dot has no indentation. Every line that the traversal
  logs for a node, test or container, starts with the indentation of that node.
\<close>

theorem tabulationForNode_depth:
  "tabulationForNode fqn = replicate (2 * (length (split fqn (CHR ''.'')) - 1)) (CHR '' '') \<and>
   length (split fqn (CHR ''.'')) = count_list fqn (CHR ''.'') + 1 \<and>
   (CHR ''.'' \<notin> set fqn \<longrightarrow> tabulationForNode fqn = []) \<and>
   (\<forall>args. LoggerInfo args \<in> set (drop (length (log st)) (log (visit w targets st n))) \<longrightarrow>
      hd args = replicate (2 * (length (split (fullyQualifiedName n) (CHR ''.'')) - 1))
                  (CHR '' ''))"
proof -
  have tab: "tabulationForNode s = replicate (2 * (length (split s (CHR ''.'')) - 1)) (CHR '' '')"
    for s
    by (simp add: tabulationForNode_def repeat_two_spaces)
  have "\<forall>args. LoggerInfo args \<in> set (node_report w targets n) \<longrightarrow>
      hd args = tabulationForNode (fullyQualifiedName n)"
    by (auto simp: node_report_def test_report_def)
  then show ?thesis
    by (simp add: tab length_split log_visit)
qed

theorem tabulationForNode_depth_witness:
  "tabulationForNode ''a.d.t'' = ''    '' \<and> tabulationForNode ''a'' = [] \<and>
   log (visit example_world [test_other] \<lparr>successes = 0, failures = [], log = []\<rparr> test_other) =
     [Exec 7, LoggerInfo [''  '', successDescription example_world (name test_other)]]"
proof -
  have "log (visit example_world [test_other] \<lparr>successes = 0, failures = [], log = []\<rparr>
               test_other) =
     [Exec 7, LoggerInfo [tabulationForNode (fullyQualifiedName test_other),
                          successDescription example_world (name test_other)]]"
    by (simp add: visit_def includes_node_def test_other_def example_world_simps)
  then show ?thesis
    using tabulationForNode_depth [of "''a.d.t''"] tabulationForNode_depth [of "''a''"]
      tabulationForNode_depth [of "fullyQualifiedName test_other"]
    by (simp add: eval_nat_numeral test_other_def)
qed

section \<open>Exit codes\<close>

lemma validateEnvironment_fails:
  "isl (snd (validateEnvironment w env skip)) \<longleftrightarrow>
     \<not> skip \<and> (case validate w env of
                 Inl thrown \<Rightarrow> True
               | Inr problems \<Rightarrow> list_ex (\<lambda>p. level p = ''error'') problems)"
  by (auto simp: validateEnvironment_def split: sum.splits prod.splits)

text \<open>
  C7. The command exits with code 1 when the parameters are rejected, when the
  environment cannot be built, when validation is not skipped and the validator throws
  or reports an error, or when the interpreter cannot be built. Otherwise it exits with
  code 0 when every selected test passes and with code 2 when one of them fails.
\<close>

theorem exit_code_cases:
  assumes "\<forall>env. buildEnvironmentForProject w (project opts) = Inr env \<longrightarrow> distinct_nodes env"
  shows "exit_code (test_command w flt opts) =
     (if truthy flt \<and> (truthy (file' opts) \<or> truthy (describe opts) \<or> truthy (test opts))
      then 1
      else case buildEnvironmentForProject w (project opts) of
             Inl error \<Rightarrow> 1
           | Inr env \<Rightarrow>
               if \<not> skipValidations opts \<and>
                  (case validate w env of
                     Inl thrown \<Rightarrow> True
                   | Inr problems \<Rightarrow> list_ex (\<lambda>p. level p = ''error'') problems)
               then 1
               else if interpret' w env \<noteq> None then 1
               else if list_all (\<lambda>t. exec w t = None) (getTarget env flt opts) then 0
               else 2)"
proof (cases "validateParameters (capture_stack w) flt opts")
  case (Inl e)
  then have "truthy flt \<and> (truthy (file' opts) \<or> truthy (describe opts) \<or> truthy (test opts))"
    by (simp add: validateParameters_def split: if_splits)
  with Inl show ?thesis
    by (simp add: test_command_def aborted_def)
next
  case vp: (Inr u)
  then have nv: "\<not> (truthy flt \<and>
      (truthy (file' opts) \<or> truthy (describe opts) \<or> truthy (test opts)))"
    by (simp add: validateParameters_def split: if_splits)
  show ?thesis
  proof (cases "buildEnvironmentForProject w (project opts)")
    case (Inl e)
    with vp nv show ?thesis
      by (simp add: test_command_def aborted_def Let_def)
  next
    case b: (Inr env)
    obtain ev2 r where ve: "validateEnvironment w env (skipValidations opts) = (ev2, r)"
      by (cases "validateEnvironment w env (skipValidations opts)")
    have vf: "isl r \<longleftrightarrow> \<not> skipValidations opts \<and>
        (case validate w env of
           Inl thrown \<Rightarrow> True
         | Inr problems \<Rightarrow> list_ex (\<lambda>p. level p = ''error'') problems)"
      using validateEnvironment_fails [of w env "skipValidations opts"] ve by simp
    show ?thesis
    proof (cases r)
      case (Inl e)
      with vf vp nv b ve show ?thesis
        by (simp add: test_command_def aborted_def Let_def)
    next
      case r: (Inr u2)
      with vf have nf: "\<not> (\<not> skipValidations opts \<and>
        (case validate w env of
           Inl thrown \<Rightarrow> True
         | Inr problems \<Rightarrow> list_ex (\<lambda>p. level p = ''error'') problems))"
        by simp
      show ?thesis
      proof (cases "interpret' w env")
        case (Some e)
        with vp nv b ve r nf show ?thesis
          by (simp add: test_command_def aborted_def Let_def)
      next
        case None
        have d: "distinct_nodes env"
          using assms b by simp
        have "set (map fst (failures (run_tests w (getTarget env flt opts) env))) =
              set (filter (\<lambda>t. exec w t \<noteq> None) (getTarget env flt opts))"
          using run_tests_failures [OF d subseq_getTarget] by (rule mset_eq_setD)
        moreover have "failures (run_tests w (getTarget env flt opts) env) \<noteq> [] \<longleftrightarrow>
              set (map fst (failures (run_tests w (getTarget env flt opts) env))) \<noteq> {}"
          by simp
        moreover have "set (filter (\<lambda>t. exec w t \<noteq> None) (getTarget env flt opts)) \<noteq> {} \<longleftrightarrow>
              \<not> list_all (\<lambda>t. exec w t = None) (getTarget env flt opts)"
          by (auto simp: list_all_iff)
        ultimately have "failures (run_tests w (getTarget env flt opts) env) \<noteq> [] \<longleftrightarrow>
              \<not> list_all (\<lambda>t. exec w t = None) (getTarget env flt opts)"
          by (simp only:)
        with vp nv b ve r nf None show ?thesis
          by (simp add: test_command_def Let_def)
      qed
    qed
  qed
qed

theorem exit_code_cases_witness:
  "distinct_nodes example_environment \<and>
   exit_code (test_command example_world None example_options) = 2 \<and>
   exit_code (test_command example_world (Some ''passes'') example_options) = 0 \<and>
   exit_code (test_command example_world (Some ''passes'')
                (example_options\<lparr>test := Some ''x''\<rparr>)) = 1 \<and>
   exit_code (test_command failing_validation_world None example_options) = 1"
proof -
  have h: "\<forall>env. buildEnvironmentForProject example_world (project opts) = Inr env \<longrightarrow>
             distinct_nodes env" for opts :: Options
    by (simp add: example_world_simps distinct_nodes_example)
  have h': "\<forall>env. buildEnvironmentForProject failing_validation_world (project opts) = Inr env \<longrightarrow>
             distinct_nodes env" for opts :: Options
    by (simp add: failing_validation_world_simps distinct_nodes_example)
  have "exit_code (test_command example_world None example_options) = 2"
    using exit_code_cases [OF h, of None example_options]
    by (simp add: getTarget_example_all example_world_simps example_options_simps
        test_passes_def test_fails_def test_other_def)
  moreover have "exit_code (test_command example_world (Some ''passes'') example_options) = 0"
    using exit_code_cases [OF h, of "Some ''passes''" example_options]
    by (simp add: getTarget_example_passes example_world_simps example_options_simps
        test_passes_def)
  moreover have "exit_code (test_command example_world (Some ''passes'')
                (example_options\<lparr>test := Some ''x''\<rparr>)) = 1"
    using exit_code_cases [OF h, of "Some ''passes''" "example_options\<lparr>test := Some ''x''\<rparr>"]
    by simp
  moreover have "exit_code (test_command failing_validation_world None example_options) = 1"
    using exit_code_cases [OF h', of None example_options]
    by (simp add: failing_validation_world_simps example_options_simps)
  ultimately show ?thesis
    using distinct_nodes_example by simp
qed

section \<open>Stack traces\<close>

text \<open>
  When the marker occurs in the stack, \<open>fullStack\<close> is the text before its first
  occurrence. When the marker does not occur, \<open>indexOf\<close> gives \<open>-1\<close>, which
  \<open>slice\<close> reads as the position before the last code unit: the last code unit of
  the stack is lost.
\<close>

lemma fullStack_marker_present:
  assumes "stack e = Some s" and "includes_str s (stack_trace_header w)"
  shows "\<exists>ss. s = fullStack w (Some e) @ stack_trace_header w @ ss \<and>
           (\<forall>ps' ss'. s = ps' @ stack_trace_header w @ ss' \<longrightarrow>
              length (fullStack w (Some e)) \<le> length ps')"
proof -
  from indexOf_from_present [OF assms(2), of 0] obtain ps ss where
    ps: "s = ps @ stack_trace_header w @ ss" "indexOf s (stack_trace_header w) = int (length ps)"
      "\<forall>ps' ss'. s = ps' @ stack_trace_header w @ ss' \<longrightarrow> length ps \<le> length ps'"
    by (auto simp: indexOf_def)
  have "fullStack w (Some e) = slice0 s (int (length ps))"
    using assms(1) ps(2) by (simp add: fullStack_def indexOfTsStack_def)
  also have "\<dots> = ps"
    using ps(1) by (simp add: slice0_def Let_def min_def)
  finally show ?thesis using ps by blast
qed

lemma fullStack_marker_absent:
  assumes "stack e = Some s" and "\<not> includes_str s (stack_trace_header w)"
  shows "fullStack w (Some e) = butlast s"
proof -
  have "indexOf s (stack_trace_header w) = - 1"
    using assms(2) by (simp add: indexOf_absent)
  then have "fullStack w (Some e) = slice0 s (- 1)"
    using assms(1) by (simp add: fullStack_def indexOfTsStack_def)
  also have "\<dots> = take (length s - 1) s"
    by (simp add: slice0_def Let_def max_def nat_diff_distrib)
  finally show ?thesis
    by (simp add: butlast_conv_take)
qed

text \<open>
  C2. On a stack without the marker, the formatted failure lacks the last character of
  the stack: the closing parenthesis of \<open>at f (a.wtest:1)\<close> is dropped, where the
  specification keeps the stack whole. On a stack with the marker, the text from the
  marker on is cut.
\<close>

theorem stack_last_character_dropped:
  "stack boom_error = Some (''Error: boom'' @ [newline_char] @ ''    at f (a.wtest:1)'') \<and>
   \<not> includes_str (''Error: boom'' @ [newline_char] @ ''    at f (a.wtest:1)'')
        (stack_trace_header example_world) \<and>
   fullStack example_world (Some boom_error) =
     ''Error: boom'' @ [newline_char] @ ''    at f (a.wtest:1'' \<and>
   failureDescription example_world ''t'' (Some boom_error) =
     cross_mark @ '' t'' @ [newline_char] @ ''  Error: boom'' @ [newline_char] @
     ''    at f (a.wtest:1'' \<and>
   fullStack example_world (Some derived_error) = ''Error: boom'' @ [newline_char]"
  by code_simp

end
